theory Spec2Isabelle
  imports Main "HOL-Library.Word" "HOL-Library.Sublist"
begin

unbundle bit_operations_syntax

section \<open>Data model of the Vault authenticator\<close>

text \<open>
  A Go \<open>error\<close> value is represented by its message. A nil pointer is \<open>None\<close>.
  \<open>api.Secret\<close> is reduced to the one field the controller reads, \<open>Auth\<close>, which is a
  pointer and may be nil; \<open>api.SecretAuth\<close> to \<open>ClientToken\<close>.
\<close>

type_synonym error = string

record SecretAuth =
  ClientToken :: string

record Secret =
  Auth :: "SecretAuth option"

type_synonym secret_ptr = "Secret option"

record Client =
  Address :: string

record VaultAuth =
  client :: Client
  path :: string
  role :: string
  jwtPath :: string

text \<open>
  The places at which the context can be cancelled while the supervisor is busy or
  waiting: during \<open>authenticate\<close>, during \<open>writeToken\<close>, while blocked in the select of
  \<open>autoRenewal\<close>, between the return of \<open>autoRenewal\<close> and the select of
  \<open>StartAutoRenew\<close>, and while blocked on the 30 second timer.
\<close>

datatype point = InAuth | InWrite | InWatch | BeforeSelect | InBackoff

text \<open>
  Everything the code does to the outside is an event of the trace, in program order.
  \<open>EvCancel\<close> is not an effect of the program: it marks the moment the context was
  cancelled, so that properties can speak about what happens after it.
\<close>

datatype event =
    EvReadFile string
  | EvRawRequest string string string string string
  | EvBodyClose
  | EvWriteFile string string "32 word" "error option"
  | EvLogError error string
  | EvLogInfo string
  | EvWatcherStart secret_ptr
  | EvWatcherStop
  | EvTimeAfter int
  | EvCancel point

record world =
  cancelled :: bool
  trace :: "event list"

datatype 'a go = Returns 'a | Panics | Blocks

text \<open>The HTTP response of \<open>RawRequest\<close>: what \<open>Error()\<close> and \<open>ParseSecret\<close> give on it.\<close>

record response =
  resp_error :: "error option"
  parse_secret :: "error + secret_ptr"

datatype sel = SelCtxDone | SelDone "error option" | SelRenew

text \<open>
  What the environment answers during one iteration of the loop of \<open>StartAutoRenew\<close>:
  the results of the library calls, the order in which the channels of the select
  become ready, and whether the context is cancelled at each point.
\<close>

record cycle =
  read_jwt :: "error + string"
  set_json_body :: "error option"
  raw_request :: "error + response"
  cancel_in_auth :: bool
  home_dir :: "error + string"
  write_file :: "error option"
  cancel_in_write :: bool
  new_watcher :: "error option"
  selects :: "sel list"
  cancel_before_select :: bool
  cancel_in_backoff :: bool

definition emit :: "event \<Rightarrow> world \<Rightarrow> world" where
  "emit e w = w\<lparr>trace := trace w @ [e]\<rparr>"

definition fire :: "point \<Rightarrow> bool \<Rightarrow> world \<Rightarrow> world" where
  "fire p b w = (if b \<and> \<not> cancelled w then emit (EvCancel p) (w\<lparr>cancelled := True\<rparr>) else w)"

section \<open>The controller code\<close>

definition CreateVaultAuth ::
  "error option \<Rightarrow> string \<Rightarrow> string \<Rightarrow> string \<Rightarrow> string \<Rightarrow> error + VaultAuth" where
  "CreateVaultAuth new_client server pth rl jwt =
     (case new_client of
        Some err \<Rightarrow> Inl err
      | None \<Rightarrow> Inr \<lparr>client = \<lparr>Address = server\<rparr>, path = pth, role = rl, jwtPath = jwt\<rparr>)"

definition authenticate :: "VaultAuth \<Rightarrow> cycle \<Rightarrow> world \<Rightarrow> (error + secret_ptr) \<times> world" where
  "authenticate auth c w =
     (let w1 = emit (EvReadFile (jwtPath auth)) w in
      case read_jwt c of
        Inl err \<Rightarrow> (Inl err, w1)
      | Inr jwt \<Rightarrow>
         (case set_json_body c of
            Some err \<Rightarrow> (Inl err, w1)
          | None \<Rightarrow>
             (let w2 = emit (EvRawRequest (Address (client auth)) ''POST''
                               (''/v1/auth/'' @ path auth) jwt (role auth)) w1 in
              case raw_request c of
                Inl err \<Rightarrow> (Inl err, w2)
              | Inr resp \<Rightarrow>
                 (let w3 = emit EvBodyClose w2 in
                  case resp_error resp of
                    Some err \<Rightarrow> (Inl err, w3)
                  | None \<Rightarrow>
                     (case parse_secret resp of
                        Inl err \<Rightarrow> (Inl err, w3)
                      | Inr secret \<Rightarrow> (Inr secret, w3))))))"

text \<open>The permission literal \<open>0600\<close> of the source is octal.\<close>

definition perm_0600 :: "32 word" where
  "perm_0600 = 6 * 8 ^ 2 + 0 * 8 + 0"

text \<open>
  \<open>filepath.Join\<close> is a library function; it is the parameter \<open>join\<close>. The expression
  \<open>secret.Auth.ClientToken\<close> is evaluated after the home directory is resolved and
  before \<open>WriteFile\<close> is called; it panics on a nil pointer.
\<close>

definition writeToken ::
  "(string \<Rightarrow> string \<Rightarrow> string) \<Rightarrow> cycle \<Rightarrow> secret_ptr \<Rightarrow> world \<Rightarrow> (error option) go \<times> world" where
  "writeToken join c secret w =
     (case home_dir c of
        Inl err \<Rightarrow> (Returns (Some err), w)
      | Inr homePath \<Rightarrow>
         (let tokenPath = join homePath ''.vault-token'' in
          case secret of
            None \<Rightarrow> (Panics, w)
          | Some s \<Rightarrow>
             (case Auth s of
                None \<Rightarrow> (Panics, w)
              | Some a \<Rightarrow>
                 (let w1 = emit (EvWriteFile tokenPath (ClientToken a) perm_0600 (write_file c)) w in
                  case write_file c of
                    Some err \<Rightarrow> (Returns (Some err), w1)
                  | None \<Rightarrow> (Returns None, w1)))))"

text \<open>
  The select loop of \<open>autoRenewal\<close>. The list gives the case the select takes each time.
  When the list is used up nothing more arrives from the watcher: the select then
  takes \<open>ctx.Done()\<close> if the context is cancelled and blocks forever otherwise.
\<close>

fun watch :: "sel list \<Rightarrow> world \<Rightarrow> (error option) go \<times> world" where
  "watch [] w = (if cancelled w then (Returns None, w) else (Blocks, w))"
| "watch (SelCtxDone # rest) w = (Returns None, fire InWatch True w)"
| "watch (SelDone None # rest) w = (Returns None, w)"
| "watch (SelDone (Some err) # rest) w =
     (Returns (Some err), emit (EvLogError err ''could not renew vault token'') w)"
| "watch (SelRenew # rest) w = watch rest (emit (EvLogInfo ''vault token renewed'') w)"

definition autoRenewal ::
  "(string \<Rightarrow> string \<Rightarrow> string) \<Rightarrow> VaultAuth \<Rightarrow> cycle \<Rightarrow> world \<Rightarrow> (error option) go \<times> world" where
  "autoRenewal join auth c w =
     (let (ra, wa) = authenticate auth c w;
          w1 = fire InAuth (cancel_in_auth c) wa
      in (case ra of
            Inl err \<Rightarrow>
              (Returns (Some err), emit (EvLogError err ''could not authenticate with vault'') w1)
          | Inr initial \<Rightarrow>
              (let (rw, ww) = writeToken join c initial w1;
                   w2 = fire InWrite (cancel_in_write c) ww
               in (case rw of
                     Panics \<Rightarrow> (Panics, ww)
                   | Blocks \<Rightarrow> (Blocks, ww)
                   | Returns (Some err) \<Rightarrow>
                       (Returns (Some err), emit (EvLogError err ''could not write auth token'') w2)
                   | Returns None \<Rightarrow>
                       (let w3 = emit (EvLogInfo ''vault token updated'') w2
                        in (case new_watcher c of
                              Some err \<Rightarrow> (Returns (Some err), w3)
                            | None \<Rightarrow>
                                (let (r, w4) = watch (selects c) (emit (EvWatcherStart initial) w3)
                                 in (case r of
                                       Blocks \<Rightarrow> (Blocks, w4)
                                     | Panics \<Rightarrow> (Panics, emit EvWatcherStop w4)
                                     | Returns err \<Rightarrow> (Returns err, emit EvWatcherStop w4)))))))))"

definition time_Second :: int where
  "time_Second = 1000000000"

text \<open>
  The loop of \<open>StartAutoRenew\<close> runs until the context is cancelled. The list of cycles
  is the behaviour of the environment for as many iterations; when it is used up the
  loop is still running (\<open>Running\<close>).
\<close>

datatype outcome = Exited world | Crashed world | Hung world | Running world

fun world_of :: "outcome \<Rightarrow> world" where
  "world_of (Exited w) = w"
| "world_of (Crashed w) = w"
| "world_of (Hung w) = w"
| "world_of (Running w) = w"

fun StartAutoRenew ::
  "(string \<Rightarrow> string \<Rightarrow> string) \<Rightarrow> VaultAuth \<Rightarrow> cycle list \<Rightarrow> world \<Rightarrow> outcome" where
  "StartAutoRenew join auth [] w = Running w"
| "StartAutoRenew join auth (c # cs) w =
     (case autoRenewal join auth c w of
        (Panics, w1) \<Rightarrow> Crashed w1
      | (Blocks, w1) \<Rightarrow> Hung w1
      | (Returns err, w1) \<Rightarrow>
         (let w2 = fire BeforeSelect (cancel_before_select c) w1 in
          case err of
            None \<Rightarrow> (if cancelled w2 then Exited w2 else StartAutoRenew join auth cs w2)
          | Some e \<Rightarrow>
             (if cancelled w2 then Exited w2
              else if cancel_in_backoff c then Exited (fire InBackoff True w2)
              else StartAutoRenew join auth cs (emit (EvTimeAfter (30 * time_Second)) w2))))"

section \<open>Process start\<close>

text \<open>
  The part of \<open>main\<close> that decides whether the authenticator runs. The four flags are
  strings; \<open>boot\<close> holds the results of the calls that can end the process before or
  while the authenticator is created. \<open>Serving (Some vault)\<close> is the state in which the
  goroutine \<open>vault.StartAutoRenew(stopCh)\<close> has been started.
\<close>

record flags =
  vaultAuth :: string
  vaultRole :: string
  vaultServer :: string
  vaultTokenPath :: string

record boot =
  new_manager :: "error option"
  setup_with_manager :: "error option"
  add_healthz_check :: "error option"
  add_readyz_check :: "error option"
  new_client :: "error option"

datatype startup = Exit1 | Serving "VaultAuth option"

definition main :: "flags \<Rightarrow> boot \<Rightarrow> startup" where
  "main fl b =
     (if new_manager b \<noteq> None then Exit1
      else if setup_with_manager b \<noteq> None then Exit1
      else if add_healthz_check b \<noteq> None then Exit1
      else if add_readyz_check b \<noteq> None then Exit1
      else if length (vaultRole fl) > 0 \<and> length (vaultServer fl) > 0
              \<and> length (vaultTokenPath fl) > 0 \<and> length (vaultAuth fl) > 0
      then (case CreateVaultAuth (new_client b) (vaultServer fl) (vaultAuth fl)
                   (vaultRole fl) (vaultTokenPath fl) of
              Inl err \<Rightarrow> Exit1
            | Inr vault \<Rightarrow> Serving (Some vault))
      else Serving None)"

text \<open>
  What the authenticator of a process does: the run of \<open>StartAutoRenew\<close> when \<open>main\<close>
  started it, and nothing otherwise.
\<close>

definition renewal ::
  "(string \<Rightarrow> string \<Rightarrow> string) \<Rightarrow> flags \<Rightarrow> boot \<Rightarrow> cycle list \<Rightarrow> world \<Rightarrow> outcome option" where
  "renewal join fl b cs w =
     (case main fl b of
        Serving (Some vault) \<Rightarrow> Some (StartAutoRenew join vault cs w)
      | Serving None \<Rightarrow> None
      | Exit1 \<Rightarrow> None)"

section \<open>Example environments\<close>

text \<open>
  A cycle in which every library call succeeds: the login returns a secret with the given
  client token, the home directory is \<open>/root\<close>, the write succeeds, the watcher is
  created, and the select sees the given sequence. The context is not cancelled in it.
\<close>

definition ok_cycle :: "string \<Rightarrow> sel list \<Rightarrow> cycle" where
  "ok_cycle tok ss =
     \<lparr>read_jwt = Inr ''jwt'', set_json_body = None,
      raw_request = Inr \<lparr>resp_error = None,
                           parse_secret = Inr (Some \<lparr>Auth = Some \<lparr>ClientToken = tok\<rparr>\<rparr>)\<rparr>,
      cancel_in_auth = False, home_dir = Inr ''/root'', write_file = None,
      cancel_in_write = False, new_watcher = None, selects = ss,
      cancel_before_select = False, cancel_in_backoff = False\<rparr>"

definition unix_join :: "string \<Rightarrow> string \<Rightarrow> string" where
  "unix_join a b = a @ ''/'' @ b"

definition va0 :: VaultAuth where
  "va0 = \<lparr>client = \<lparr>Address = ''https://vault:8200''\<rparr>, path = ''kubernetes/login'',
          role = ''sops'', jwtPath = ''/var/run/secrets/token''\<rparr>"

definition w0 :: world where
  "w0 = \<lparr>cancelled = False, trace = []\<rparr>"

definition flags0 :: flags where
  "flags0 = \<lparr>vaultAuth = ''kubernetes/login'', vaultRole = ''sops'',
             vaultServer = ''https://vault:8200'', vaultTokenPath = ''/var/run/secrets/token''\<rparr>"

definition boot0 :: boot where
  "boot0 = \<lparr>new_manager = None, setup_with_manager = None, add_healthz_check = None,
            add_readyz_check = None, new_client = None\<rparr>"

section \<open>Observations on traces\<close>

fun is_write :: "event \<Rightarrow> bool" where
  "is_write (EvWriteFile p d m r) = True"
| "is_write e = False"

fun is_request :: "event \<Rightarrow> bool" where
  "is_request (EvRawRequest a m p j r) = True"
| "is_request e = False"

fun is_attempt :: "event \<Rightarrow> bool" where
  "is_attempt (EvReadFile f) = True"
| "is_attempt e = False"

fun is_pause :: "event \<Rightarrow> bool" where
  "is_pause (EvTimeAfter d) = True"
| "is_pause e = False"

fun is_start :: "event \<Rightarrow> bool" where
  "is_start (EvWatcherStart s) = True"
| "is_start e = False"

text \<open>
  The content of the file at path \<open>p\<close> as far as the trace determines it: the data of the
  last write to \<open>p\<close> that succeeded. A failed write is taken to leave the file as it was.
\<close>

fun token_step :: "string \<Rightarrow> string option \<Rightarrow> event \<Rightarrow> string option" where
  "token_step p cur (EvWriteFile q d m None) = (if q = p then Some d else cur)"
| "token_step p cur e = cur"

definition token_file :: "string \<Rightarrow> event list \<Rightarrow> string option" where
  "token_file p evs = foldl (token_step p) None evs"

text \<open>The result and the events of \<open>authenticate\<close>, which depend on no state.\<close>

definition auth_result :: "cycle \<Rightarrow> error + secret_ptr" where
  "auth_result c = fst (authenticate \<lparr>client = \<lparr>Address = []\<rparr>, path = [], role = [], jwtPath = []\<rparr> c
                          \<lparr>cancelled = False, trace = []\<rparr>)"

definition auth_events :: "VaultAuth \<Rightarrow> cycle \<Rightarrow> event list" where
  "auth_events auth c = trace (snd (authenticate auth c \<lparr>cancelled = False, trace = []\<rparr>))"

definition emits :: "event list \<Rightarrow> world \<Rightarrow> world" where
  "emits evs w = w\<lparr>trace := trace w @ evs\<rparr>"

definition cycle_writes :: "(string \<Rightarrow> string \<Rightarrow> string) \<Rightarrow> cycle \<Rightarrow> event list" where
  "cycle_writes join c =
     (case auth_result c of
        Inr (Some s) \<Rightarrow>
          (case (Auth s, home_dir c) of
             (Some a, Inr h) \<Rightarrow>
               [EvWriteFile (join h ''.vault-token'') (ClientToken a) perm_0600 (write_file c)]
           | _ \<Rightarrow> [])
      | _ \<Rightarrow> [])"

text \<open>
  The number of lease watchers that are running after a trace: \<open>None\<close> when a watcher was
  started while another one was running, or stopped when none was.
\<close>

definition watcher_step :: "nat option \<Rightarrow> event \<Rightarrow> nat option" where
  "watcher_step st e =
     (case st of
        None \<Rightarrow> None
      | Some n \<Rightarrow>
         (case e of
            EvWatcherStart s \<Rightarrow> (if n = 0 then Some 1 else None)
          | EvWatcherStop \<Rightarrow> (if n = 1 then Some 0 else None)
          | _ \<Rightarrow> Some n))"

definition watchers :: "event list \<Rightarrow> nat option" where
  "watchers evs = foldl watcher_step (Some 0) evs"

fun waiting :: "outcome \<Rightarrow> nat" where
  "waiting (Hung w) = 1"
| "waiting out = 0"

text \<open>
  The order of the steps of a cycle, read off the trace. An attempt starts with the read
  of the identity file, then come the request, the close of the response body, the write
  of the token, the start and the stop of the watcher. A logged error outside the wait
  ends the cycle (\<open>Failed\<close>), and so does a write that failed. \<open>Wrong\<close> is reached when
  an event comes out of this order, in particular when an attempt starts while a watcher
  runs.
\<close>

datatype ostate = Idle | Reading | Requested | Responded | Written | Watching | Stopped
  | Failed | Wrong

definition order_step :: "ostate \<Rightarrow> event \<Rightarrow> ostate" where
  "order_step st e =
     (case e of
        EvReadFile f \<Rightarrow> (if st = Watching \<or> st = Wrong then Wrong else Reading)
      | EvRawRequest a m p j r \<Rightarrow> (if st = Reading then Requested else Wrong)
      | EvBodyClose \<Rightarrow> (if st = Requested then Responded else Wrong)
      | EvWriteFile p d m res \<Rightarrow>
          (if st = Responded then (if res = None then Written else Failed) else Wrong)
      | EvWatcherStart s \<Rightarrow> (if st = Written then Watching else Wrong)
      | EvWatcherStop \<Rightarrow> (if st = Watching then Stopped else Wrong)
      | EvLogError err m \<Rightarrow>
          (if st = Watching then Watching
           else if st = Reading \<or> st = Requested \<or> st = Responded \<or> st = Failed then Failed
           else Wrong)
      | EvLogInfo m \<Rightarrow> st
      | EvTimeAfter d \<Rightarrow> st
      | EvCancel p \<Rightarrow> st)"

definition order :: "event list \<Rightarrow> ostate" where
  "order evs = foldl order_step Idle evs"

fun ready :: "ostate \<Rightarrow> bool" where
  "ready Idle = True"
| "ready Failed = True"
| "ready Written = True"
| "ready Stopped = True"
| "ready st = False"

fun order_at_end :: "outcome \<Rightarrow> ostate \<Rightarrow> bool" where
  "order_at_end (Hung w) st = (st = Watching)"
| "order_at_end (Crashed w) st = (st = Responded)"
| "order_at_end (Exited w) st = ready st"
| "order_at_end (Running w) st = ready st"

section \<open>Basic facts\<close>

lemma trace_emit [simp]: "trace (emit e w) = trace w @ [e]"
  by (simp add: emit_def)

lemma cancelled_emit [simp]: "cancelled (emit e w) = cancelled w"
  by (simp add: emit_def)

lemma trace_emits [simp]: "trace (emits evs w) = trace w @ evs"
  by (simp add: emits_def)

lemma cancelled_emits [simp]: "cancelled (emits evs w) = cancelled w"
  by (simp add: emits_def)

lemma cancelled_fire [simp]: "cancelled (fire p b w) = (b \<or> cancelled w)"
  by (auto simp add: fire_def)

lemma trace_fire:
  "trace (fire p b w) = trace w @ (if b \<and> \<not> cancelled w then [EvCancel p] else [])"
  by (simp add: fire_def)

lemma fire_idle [simp]: "cancelled w \<Longrightarrow> fire p b w = w"
  by (simp add: fire_def)

lemma fire_False [simp]: "fire p False w = w"
  by (simp add: fire_def)

lemma authenticate_eq: "authenticate auth c w = (auth_result c, emits (auth_events auth c) w)"
  by (simp add: authenticate_def auth_result_def auth_events_def emits_def emit_def Let_def
      split: sum.splits option.splits)

lemma auth_events_shape:
  "auth_events auth c = [EvReadFile (jwtPath auth)] \<or>
   (\<exists>jwt. auth_events auth c = [EvReadFile (jwtPath auth),
       EvRawRequest (Address (client auth)) ''POST'' (''/v1/auth/'' @ path auth) jwt (role auth)]) \<or>
   (\<exists>jwt. auth_events auth c = [EvReadFile (jwtPath auth),
       EvRawRequest (Address (client auth)) ''POST'' (''/v1/auth/'' @ path auth) jwt (role auth),
       EvBodyClose])"
  by (simp add: authenticate_def auth_events_def emit_def Let_def
      split: sum.splits option.splits)

lemma auth_events_ok:
  "auth_result c = Inr s \<Longrightarrow>
   \<exists>jwt. auth_events auth c = [EvReadFile (jwtPath auth),
       EvRawRequest (Address (client auth)) ''POST'' (''/v1/auth/'' @ path auth) jwt (role auth),
       EvBodyClose]"
  by (simp add: authenticate_def auth_events_def auth_result_def emit_def Let_def
      split: sum.splits option.splits)

lemma auth_events_write [simp]: "filter is_write (auth_events auth c) = []"
  using auth_events_shape [of auth c] by auto

lemma auth_events_start [simp]: "filter is_start (auth_events auth c) = []"
  using auth_events_shape [of auth c] by auto

lemma auth_events_attempt [simp]:
  "filter is_attempt (auth_events auth c) = [EvReadFile (jwtPath auth)]"
  using auth_events_shape [of auth c] by auto

lemma auth_events_pause [simp]: "filter is_pause (auth_events auth c) = []"
  using auth_events_shape [of auth c] by auto

lemma auth_events_request [simp]: "length (filter is_request (auth_events auth c)) \<le> 1"
  using auth_events_shape [of auth c] by auto

lemma watch_not_blocks: "cancelled w \<Longrightarrow> fst (watch ss w) \<noteq> Blocks"
  by (induction ss w rule: watch.induct) simp_all

lemma watch_not_panics [simp]: "fst (watch ss w) \<noteq> Panics"
  by (induction ss w rule: watch.induct) simp_all

lemma watch_filter:
  assumes "\<And>e m. \<not> P (EvLogError e m)" "\<And>m. \<not> P (EvLogInfo m)" "\<And>p. \<not> P (EvCancel p)"
  shows "filter P (trace (snd (watch ss w))) = filter P (trace w)"
  using assms by (induction ss w rule: watch.induct) (simp_all add: trace_fire)

lemma watch_cancelled: "cancelled w \<Longrightarrow> cancelled (snd (watch ss w))"
  by (induction ss w rule: watch.induct) simp_all

lemma watch_extends: "\<exists>evs. trace (snd (watch ss w)) = trace w @ evs"
  by (induction ss w rule: watch.induct) (auto simp add: trace_fire)

lemmas cycle_simps = autoRenewal_def authenticate_eq writeToken_def Let_def case_prod_unfold

lemma autoRenewal_writes:
  "filter is_write (trace (snd (autoRenewal join auth c w))) =
     filter is_write (trace w) @ cycle_writes join c"
  by (simp add: cycle_simps trace_fire watch_filter cycle_writes_def
      split: sum.splits option.splits go.splits)

lemma autoRenewal_requests:
  "length (filter is_request (trace (snd (autoRenewal join auth c w)))) \<le>
     length (filter is_request (trace w)) + 1"
  using auth_events_request [of auth c]
  by (simp add: cycle_simps trace_fire watch_filter
      split: sum.splits option.splits go.splits)

lemma autoRenewal_attempts:
  "filter is_attempt (trace (snd (autoRenewal join auth c w))) =
     filter is_attempt (trace w) @ [EvReadFile (jwtPath auth)]"
  by (simp add: cycle_simps trace_fire watch_filter
      split: sum.splits option.splits go.splits)

lemma autoRenewal_pauses:
  "filter is_pause (trace (snd (autoRenewal join auth c w))) = filter is_pause (trace w)"
  by (simp add: cycle_simps trace_fire watch_filter
      split: sum.splits option.splits go.splits)

lemma autoRenewal_cancelled: "cancelled w \<Longrightarrow> cancelled (snd (autoRenewal join auth c w))"
  by (simp add: cycle_simps watch_cancelled
      split: sum.splits option.splits go.splits)

lemma autoRenewal_not_blocks: "cancelled w \<Longrightarrow> fst (autoRenewal join auth c w) \<noteq> Blocks"
  using watch_not_blocks
  by (simp add: cycle_simps split: sum.splits option.splits go.splits)

lemma cycle_writes_length: "length (cycle_writes join c) \<le> 1"
  by (simp add: cycle_writes_def split: sum.splits option.splits)

text \<open>The ways in which one iteration of the loop of \<open>StartAutoRenew\<close> can go.\<close>

lemma StartAutoRenew_cases [consumes 1, case_names crash hang exit again exit_backoff pause]:
  assumes "autoRenewal join auth c w = (r, w1)"
  obtains
    (crash) "r = Panics" "StartAutoRenew join auth (c # cs) w = Crashed w1"
  | (hang) "r = Blocks" "StartAutoRenew join auth (c # cs) w = Hung w1"
  | (exit) err where "r = Returns err"
      "cancelled (fire BeforeSelect (cancel_before_select c) w1)"
      "StartAutoRenew join auth (c # cs) w = Exited (fire BeforeSelect (cancel_before_select c) w1)"
  | (again) "r = Returns None"
      "\<not> cancelled (fire BeforeSelect (cancel_before_select c) w1)"
      "StartAutoRenew join auth (c # cs) w =
         StartAutoRenew join auth cs (fire BeforeSelect (cancel_before_select c) w1)"
  | (exit_backoff) e where "r = Returns (Some e)"
      "\<not> cancelled (fire BeforeSelect (cancel_before_select c) w1)" "cancel_in_backoff c"
      "StartAutoRenew join auth (c # cs) w =
         Exited (fire InBackoff True (fire BeforeSelect (cancel_before_select c) w1))"
  | (pause) e where "r = Returns (Some e)"
      "\<not> cancelled (fire BeforeSelect (cancel_before_select c) w1)" "\<not> cancel_in_backoff c"
      "StartAutoRenew join auth (c # cs) w =
         StartAutoRenew join auth cs
           (emit (EvTimeAfter (30 * time_Second)) (fire BeforeSelect (cancel_before_select c) w1))"
proof (cases r)
  case Panics
  then show ?thesis using assms crash by simp
next
  case Blocks
  then show ?thesis using assms hang by simp
next
  case (Returns err)
  let ?w2 = "fire BeforeSelect (cancel_before_select c) w1"
  have eq: "StartAutoRenew join auth (c # cs) w =
      (case err of
         None \<Rightarrow> (if cancelled ?w2 then Exited ?w2 else StartAutoRenew join auth cs ?w2)
       | Some e \<Rightarrow>
          (if cancelled ?w2 then Exited ?w2
           else if cancel_in_backoff c then Exited (fire InBackoff True ?w2)
           else StartAutoRenew join auth cs (emit (EvTimeAfter (30 * time_Second)) ?w2)))"
    using assms Returns by (simp only: StartAutoRenew.simps prod.case go.case Let_def)
  show ?thesis
  proof (cases "cancelled ?w2")
    case True
    then have "StartAutoRenew join auth (c # cs) w = Exited ?w2"
      using eq by (cases err) simp_all
    then show ?thesis using exit Returns True by blast
  next
    case False
    show ?thesis
    proof (cases err)
      case None
      then have "StartAutoRenew join auth (c # cs) w = StartAutoRenew join auth cs ?w2"
        using eq False by (simp only: option.case if_False)
      then show ?thesis using again Returns None False by blast
    next
      case (Some e)
      show ?thesis
      proof (cases "cancel_in_backoff c")
        case True
        then have "StartAutoRenew join auth (c # cs) w = Exited (fire InBackoff True ?w2)"
          using eq False Some by (simp only: option.case if_False if_True)
        then show ?thesis using exit_backoff Returns Some False True by blast
      next
        case nb: False
        then have "StartAutoRenew join auth (c # cs) w =
            StartAutoRenew join auth cs (emit (EvTimeAfter (30 * time_Second)) ?w2)"
          using eq False Some by (simp only: option.case if_False)
        then show ?thesis using pause Returns Some False nb by blast
      qed
    qed
  qed
qed

section \<open>Starting the authenticator\<close>

text \<open>
  C10. \<open>main\<close> creates the \<open>VaultAuth\<close> and starts \<open>StartAutoRenew\<close> only when the four
  flags (authentication path, role, server and token path) are all non-empty, and then
  with exactly these values; if one of them is empty no \<open>VaultAuth\<close> is created and the
  process has no run of the authenticator, hence no login attempt and no token write.
\<close>

theorem main_starts_renewal:
  "(main fl b = Serving (Some vault) \<longrightarrow>
      vaultAuth fl \<noteq> [] \<and> vaultRole fl \<noteq> [] \<and> vaultServer fl \<noteq> [] \<and> vaultTokenPath fl \<noteq> []
      \<and> vault = \<lparr>client = \<lparr>Address = vaultServer fl\<rparr>, path = vaultAuth fl,
                  role = vaultRole fl, jwtPath = vaultTokenPath fl\<rparr>
      \<and> renewal join fl b cs w = Some (StartAutoRenew join vault cs w))
   \<and> (vaultAuth fl = [] \<or> vaultRole fl = [] \<or> vaultServer fl = [] \<or> vaultTokenPath fl = [] \<longrightarrow>
        (main fl b = Exit1 \<or> main fl b = Serving None) \<and> renewal join fl b cs w = None)"
  by (auto simp add: main_def renewal_def CreateVaultAuth_def split: option.splits if_splits)

theorem main_starts_renewal_witness:
  "main flags0 boot0 = Serving (Some va0)
   \<and> renewal unix_join flags0 boot0 [] w0 = Some (Running w0)
   \<and> main (flags0\<lparr>vaultRole := []\<rparr>) boot0 = Serving None
   \<and> renewal unix_join (flags0\<lparr>vaultRole := []\<rparr>) boot0 [ok_cycle ''tok'' []] w0 = None"
  using main_starts_renewal [where fl = flags0 and b = boot0 and vault = va0 and join = unix_join
      and cs = "[]" and w = w0]
    main_starts_renewal [where fl = "flags0\<lparr>vaultRole := []\<rparr>" and b = boot0 and join = unix_join
      and cs = "[ok_cycle ''tok'' []]" and w = w0]
  by (simp add: main_def flags0_def boot0_def va0_def CreateVaultAuth_def)

section \<open>The token file and the login\<close>

lemma token_step_other: "\<not> is_write e \<Longrightarrow> token_step p cur e = cur"
  by (cases e) simp_all

lemma token_fold_filter:
  "foldl (token_step p) cur evs = foldl (token_step p) cur (filter is_write evs)"
  by (induction evs arbitrary: cur) (simp_all add: token_step_other)

lemma token_file_filter: "token_file p evs = token_file p (filter is_write evs)"
  unfolding token_file_def by (rule token_fold_filter)

lemma prefix_watch: "prefix xs (trace w) \<Longrightarrow> prefix xs (trace (snd (watch ss w)))"
  using watch_extends [of ss w] by (auto simp add: prefix_def)

lemma autoRenewal_write_next:
  assumes "auth_result c = Inr (Some s)" "Auth s = Some a" "home_dir c = Inr h"
  shows "prefix
           (trace (fire InAuth (cancel_in_auth c) (emits (auth_events auth c) w)) @
            [EvWriteFile (join h ''.vault-token'') (ClientToken a) perm_0600 (write_file c)])
           (trace (snd (autoRenewal join auth c w)))"
  using assms
  by (auto simp add: cycle_simps trace_fire split: option.splits go.splits
      intro!: prefix_watch prefix_prefix)

text \<open>
  C3, as stated, does not hold: after a login that succeeds the token may fail to be
  written. Here the first cycle logs in with token A and writes it; the second logs in
  with token B, the home directory is not resolved, and the file still holds A.
\<close>

theorem token_file_stale_counterexample:
  "fst (authenticate va0
          ((ok_cycle ''B'' [])\<lparr>home_dir := Inl ''no home'', cancel_in_backoff := True\<rparr>)
          (world_of (StartAutoRenew unix_join va0 [ok_cycle ''A'' [SelDone None]] w0)))
     = Inr (Some \<lparr>Auth = Some \<lparr>ClientToken = ''B''\<rparr>\<rparr>)
   \<and> token_file ''/root/.vault-token''
       (trace (world_of (StartAutoRenew unix_join va0
          [ok_cycle ''A'' [SelDone None],
           (ok_cycle ''B'' [])\<lparr>home_dir := Inl ''no home'', cancel_in_backoff := True\<rparr>] w0)))
     = Some ''A''"
  by (simp add: autoRenewal_def authenticate_def writeToken_def ok_cycle_def Let_def fire_def
      emit_def unix_join_def va0_def w0_def token_file_def perm_0600_def)

text \<open>
  C3 amended. In every cycle the token file is written at most once, and only as the step
  that follows a login that succeeded, with the client token of that login; a cycle whose
  login fails, or whose home directory is not resolved, writes nothing and leaves the
  content of the file as it was. When the write succeeds the file holds the token of this
  cycle's login; when it does not, the file may hold an older token until a later cycle
  writes.
\<close>

theorem token_written_after_login:
  "(\<forall>e. fst (authenticate auth c w) = Inl e \<or> home_dir c = Inl e \<longrightarrow>
       filter is_write (trace (snd (autoRenewal join auth c w))) = filter is_write (trace w)
     \<and> token_file p (trace (snd (autoRenewal join auth c w))) = token_file p (trace w))
   \<and> (filter is_write (trace (snd (autoRenewal join auth c w))) = filter is_write (trace w)
      \<or> (\<exists>s a h. fst (authenticate auth c w) = Inr (Some s) \<and> Auth s = Some a
            \<and> home_dir c = Inr h
            \<and> filter is_write (trace (snd (autoRenewal join auth c w))) =
                filter is_write (trace w) @
                [EvWriteFile (join h ''.vault-token'') (ClientToken a) perm_0600 (write_file c)]))
   \<and> (\<forall>s a h. fst (authenticate auth c w) = Inr (Some s) \<and> Auth s = Some a
         \<and> home_dir c = Inr h \<longrightarrow>
         (\<exists>rest. trace (snd (autoRenewal join auth c w)) =
            trace (fire InAuth (cancel_in_auth c) (snd (authenticate auth c w))) @
            EvWriteFile (join h ''.vault-token'') (ClientToken a) perm_0600 (write_file c) # rest)
       \<and> (write_file c = None \<longrightarrow>
            token_file (join h ''.vault-token'') (trace (snd (autoRenewal join auth c w)))
              = Some (ClientToken a)))"
proof -
  let ?t1 = "trace (snd (autoRenewal join auth c w))"
  have wr: "filter is_write ?t1 = filter is_write (trace w) @ cycle_writes join c"
    by (rule autoRenewal_writes)
  have none: "cycle_writes join c = []" if "auth_result c = Inl e \<or> home_dir c = Inl e" for e
    using that by (auto simp add: cycle_writes_def split: sum.splits option.splits)
  have p1: "filter is_write ?t1 = filter is_write (trace w) \<and> token_file p ?t1 = token_file p (trace w)"
    if "fst (authenticate auth c w) = Inl e \<or> home_dir c = Inl e" for e
  proof -
    have "filter is_write ?t1 = filter is_write (trace w)"
      using that wr none [of e] by (simp add: authenticate_eq)
    then show ?thesis
      using token_file_filter [of p ?t1] token_file_filter [of p "trace w"] by simp
  qed
  have p2: "filter is_write ?t1 = filter is_write (trace w)
      \<or> (\<exists>s a h. fst (authenticate auth c w) = Inr (Some s) \<and> Auth s = Some a
            \<and> home_dir c = Inr h
            \<and> filter is_write ?t1 = filter is_write (trace w) @
                [EvWriteFile (join h ''.vault-token'') (ClientToken a) perm_0600 (write_file c)])"
    using wr by (auto simp add: cycle_writes_def authenticate_eq split: sum.splits option.splits)
  have p3: "(\<exists>rest. ?t1 =
            trace (fire InAuth (cancel_in_auth c) (snd (authenticate auth c w))) @
            EvWriteFile (join h ''.vault-token'') (ClientToken a) perm_0600 (write_file c) # rest)
       \<and> (write_file c = None \<longrightarrow> token_file (join h ''.vault-token'') ?t1 = Some (ClientToken a))"
    if "fst (authenticate auth c w) = Inr (Some s) \<and> Auth s = Some a \<and> home_dir c = Inr h"
    for s a h
  proof -
    have ar: "auth_result c = Inr (Some s)" and au: "Auth s = Some a" and ho: "home_dir c = Inr h"
      using that by (simp_all add: authenticate_eq)
    have nx: "\<exists>rest. ?t1 =
            trace (fire InAuth (cancel_in_auth c) (snd (authenticate auth c w))) @
            EvWriteFile (join h ''.vault-token'') (ClientToken a) perm_0600 (write_file c) # rest"
      using autoRenewal_write_next [OF ar au ho, of auth w join]
      by (auto simp add: authenticate_eq prefix_def)
    have cw: "cycle_writes join c =
        [EvWriteFile (join h ''.vault-token'') (ClientToken a) perm_0600 (write_file c)]"
      using ar au ho by (simp add: cycle_writes_def)
    have "token_file (join h ''.vault-token'') ?t1 = Some (ClientToken a)" if "write_file c = None"
      using token_file_filter [of "join h ''.vault-token''" ?t1] wr cw that
      by (simp add: token_file_def)
    then show ?thesis using nx by blast
  qed
  show ?thesis
    using p1 p2 p3 by blast
qed

theorem token_written_after_login_witness:
  "token_file ''/root/.vault-token''
     (trace (snd (autoRenewal unix_join va0 (ok_cycle ''A'' [SelDone None]) w0))) = Some ''A''
   \<and> filter is_write (trace (snd (autoRenewal unix_join va0
        ((ok_cycle ''B'' [])\<lparr>read_jwt := Inl ''no such file''\<rparr>) w0))) = []"
  using token_written_after_login [where join = unix_join and auth = va0
      and c = "ok_cycle ''A'' [SelDone None]" and w = w0 and p = "''/root/.vault-token''"]
    token_written_after_login [where join = unix_join and auth = va0
      and c = "(ok_cycle ''B'' [])\<lparr>read_jwt := Inl ''no such file''\<rparr>" and w = w0
      and p = "''/root/.vault-token''"]
  by (simp add: authenticate_def ok_cycle_def Let_def emit_def unix_join_def w0_def)

section \<open>Cancellation before the first attempt\<close>

text \<open>
  C4, as the specification states it, does not hold: the loop calls \<open>autoRenewal\<close> before
  it looks at the context for the first time. With the context cancelled from the start
  and a login that succeeds, one request is sent and the token file is written once.
\<close>

theorem cancelled_at_start_counterexample:
  "StartAutoRenew unix_join va0 [ok_cycle ''tok'' []] \<lparr>cancelled = True, trace = []\<rparr> =
     Exited \<lparr>cancelled = True,
             trace = [EvReadFile ''/var/run/secrets/token'',
                      EvRawRequest ''https://vault:8200'' ''POST'' ''/v1/auth/kubernetes/login''
                        ''jwt'' ''sops'',
                      EvBodyClose,
                      EvWriteFile ''/root/.vault-token'' ''tok'' perm_0600 None,
                      EvLogInfo ''vault token updated'',
                      EvWatcherStart (Some \<lparr>Auth = Some \<lparr>ClientToken = ''tok''\<rparr>\<rparr>),
                      EvWatcherStop]\<rparr>
   \<and> length (filter is_request (trace (world_of
         (StartAutoRenew unix_join va0 [ok_cycle ''tok'' []] \<lparr>cancelled = True, trace = []\<rparr>)))) = 1
   \<and> length (filter is_write (trace (world_of
         (StartAutoRenew unix_join va0 [ok_cycle ''tok'' []] \<lparr>cancelled = True, trace = []\<rparr>)))) = 1"
  by (simp add: autoRenewal_def authenticate_def writeToken_def ok_cycle_def Let_def fire_def
      emit_def unix_join_def va0_def)

text \<open>
  C4 amended. When the context is already cancelled as the loop starts, the loop runs
  exactly one cycle and then ends (it exits, or crashes on a secret without credential):
  it reads the identity file once, sends at most one request, writes the token file at
  most once, and does not pause.
\<close>

theorem cancelled_at_start:
  assumes "cancelled w"
  shows "StartAutoRenew join auth (c # cs) w =
           (if fst (autoRenewal join auth c w) = Panics
            then Crashed (snd (autoRenewal join auth c w))
            else Exited (snd (autoRenewal join auth c w)))
       \<and> filter is_attempt (trace (snd (autoRenewal join auth c w))) =
           filter is_attempt (trace w) @ [EvReadFile (jwtPath auth)]
       \<and> length (filter is_request (trace (snd (autoRenewal join auth c w))))
           \<le> length (filter is_request (trace w)) + 1
       \<and> length (filter is_write (trace (snd (autoRenewal join auth c w))))
           \<le> length (filter is_write (trace w)) + 1
       \<and> filter is_pause (trace (snd (autoRenewal join auth c w))) = filter is_pause (trace w)"
proof -
  obtain r w1 where rw: "autoRenewal join auth c w = (r, w1)"
    by (cases "autoRenewal join auth c w")
  have c1: "cancelled w1"
    using autoRenewal_cancelled [OF assms, of join auth c] rw by simp
  have nb: "r \<noteq> Blocks"
    using autoRenewal_not_blocks [OF assms, of join auth c] rw by simp
  have loop: "StartAutoRenew join auth (c # cs) w = (if r = Panics then Crashed w1 else Exited w1)"
    using rw c1 nb by (cases r) (simp_all split: option.splits)
  show ?thesis
    using loop rw cycle_writes_length [of join c] autoRenewal_attempts [of join auth c w]
      autoRenewal_requests [of join auth c w] autoRenewal_writes [of join auth c w]
      autoRenewal_pauses [of join auth c w]
    by simp
qed

theorem cancelled_at_start_witness:
  "StartAutoRenew unix_join va0 [(ok_cycle ''tok'' [])\<lparr>read_jwt := Inl ''no such file''\<rparr>]
     \<lparr>cancelled = True, trace = []\<rparr> =
   Exited \<lparr>cancelled = True,
           trace = [EvReadFile (jwtPath va0),
                    EvLogError ''no such file'' ''could not authenticate with vault'']\<rparr>"
  using cancelled_at_start [where w = "\<lparr>cancelled = True, trace = []\<rparr>" and join = unix_join
      and auth = va0 and c = "(ok_cycle ''tok'' [])\<lparr>read_jwt := Inl ''no such file''\<rparr>" and cs = "[]"]
  by (simp add: autoRenewal_def authenticate_def ok_cycle_def Let_def fire_def emit_def)

section \<open>The order of login, write and watch\<close>

lemma order_step_simps [simp]:
  "order_step st (EvLogInfo m) = st" "order_step st (EvTimeAfter d) = st"
  "order_step st (EvCancel p) = st"
  "order_step Watching (EvLogError e m) = Watching"
  "order_step Responded (EvLogError e m) = Failed"
  "order_step Failed (EvLogError e m) = Failed"
  "order_step Responded (EvWriteFile q da mo None) = Written"
  "order_step Responded (EvWriteFile q da mo (Some e)) = Failed"
  "order_step Written (EvWatcherStart s) = Watching"
  "order_step Watching EvWatcherStop = Stopped"
  by (simp_all add: order_step_def)

lemma order_auth_ok:
  "ready st \<Longrightarrow> auth_result c = Inr s \<Longrightarrow> foldl order_step st (auth_events auth c) = Responded"
  using auth_events_ok [of c s auth]
  by (cases st) (auto simp add: order_step_def)

lemma order_auth_fail:
  "ready st \<Longrightarrow> order_step (foldl order_step st (auth_events auth c)) (EvLogError e m) = Failed"
  using auth_events_shape [of auth c]
  by (cases st) (auto simp add: order_step_def)

lemma order_watch:
  "foldl order_step st (trace w) = Watching \<Longrightarrow>
   foldl order_step st (trace (snd (watch ss w))) = Watching"
  by (induction ss w rule: watch.induct) (simp_all add: trace_fire)

lemma order_cycle:
  assumes "ready (order (trace w))"
  shows "order_at_end
           (case fst (autoRenewal join auth c w) of
              Blocks \<Rightarrow> Hung w | Panics \<Rightarrow> Crashed w | Returns err \<Rightarrow> Exited w)
           (order (trace (snd (autoRenewal join auth c w))))"
  using assms
  by (simp add: order_def cycle_simps trace_fire order_auth_ok order_auth_fail order_watch
      split: sum.splits option.splits go.splits)

lemma order_fire [simp]: "order (trace (fire p b w)) = order (trace w)"
  by (simp add: order_def trace_fire)

lemma order_pause [simp]: "order (evs @ [EvTimeAfter d]) = order evs"
  by (simp add: order_def)

lemma order_loop:
  "ready (order (trace w)) \<Longrightarrow>
   order_at_end (StartAutoRenew join auth cs w)
     (order (trace (world_of (StartAutoRenew join auth cs w))))"
proof (induction cs arbitrary: w)
  case Nil
  then show ?case by simp
next
  case (Cons c cs)
  obtain r w1 where rw: "autoRenewal join auth c w = (r, w1)"
    by (cases "autoRenewal join auth c w")
  have st: "order_at_end
      (case r of Blocks \<Rightarrow> Hung w | Panics \<Rightarrow> Crashed w | Returns err \<Rightarrow> Exited w)
      (order (trace w1))"
    using order_cycle [OF Cons.prems, of join auth c] rw by simp
  from rw show ?case
  proof (cases rule: StartAutoRenew_cases [where cs = cs])
    case crash
    then show ?thesis using st by (simp del: StartAutoRenew.simps)
  next
    case hang
    then show ?thesis using st by (simp del: StartAutoRenew.simps)
  next
    case (exit err)
    then show ?thesis using st by (simp del: StartAutoRenew.simps)
  next
    case again
    then show ?thesis using st Cons.IH by (simp del: StartAutoRenew.simps)
  next
    case (exit_backoff e)
    then show ?thesis using st by (simp del: StartAutoRenew.simps)
  next
    case (pause e)
    then show ?thesis using st Cons.IH by (simp del: StartAutoRenew.simps)
  qed
qed

lemma order_at_end_not_wrong: "order_at_end out st \<Longrightarrow> st \<noteq> Wrong"
  by (cases out; cases st) simp_all

lemma autoRenewal_starts:
  "filter is_start (trace (snd (autoRenewal join auth c w))) =
     filter is_start (trace w) @
     (case auth_result c of
        Inl e \<Rightarrow> []
      | Inr sec \<Rightarrow>
          (if fst (writeToken join c sec w) = Returns None \<and> new_watcher c = None
           then [EvWatcherStart sec] else []))"
  by (simp add: cycle_simps trace_fire watch_filter
      split: sum.splits option.splits go.splits)

text \<open>
  C6. Along every run of the loop that starts with no cycle under way, the events come in
  the order login (read, request, response), write, watcher start, watcher stop; nothing
  of a cycle follows a logged failure or a failed write; and a new attempt never starts
  while a watcher runs. A watcher is running at the end exactly when the loop is blocked
  in the wait. In a cycle, a login that fails is followed by no write and no watcher, and
  a write or a watcher creation that fails is followed by no watcher.
\<close>

theorem login_write_watch_order:
  assumes "ready (order (trace w))"
  shows "order (trace (world_of (StartAutoRenew join auth cs w))) \<noteq> Wrong
       \<and> order_at_end (StartAutoRenew join auth cs w)
           (order (trace (world_of (StartAutoRenew join auth cs w))))
       \<and> (\<forall>e. fst (authenticate auth c w) = Inl e \<longrightarrow>
             filter is_write (trace (snd (autoRenewal join auth c w))) = filter is_write (trace w)
           \<and> filter is_start (trace (snd (autoRenewal join auth c w))) = filter is_start (trace w))
       \<and> (\<forall>sec. fst (authenticate auth c w) = Inr sec \<longrightarrow>
             fst (writeToken join c sec w) \<noteq> Returns None \<or> new_watcher c \<noteq> None \<longrightarrow>
             filter is_start (trace (snd (autoRenewal join auth c w))) = filter is_start (trace w))"
proof -
  have a: "order_at_end (StartAutoRenew join auth cs w)
           (order (trace (world_of (StartAutoRenew join auth cs w))))"
    by (rule order_loop [OF assms])
  have b: "filter is_write (trace (snd (autoRenewal join auth c w))) = filter is_write (trace w)
         \<and> filter is_start (trace (snd (autoRenewal join auth c w))) = filter is_start (trace w)"
    if "fst (authenticate auth c w) = Inl e" for e
    using that autoRenewal_starts [of join auth c w] autoRenewal_writes [of join auth c w]
    by (simp add: authenticate_eq cycle_writes_def)
  have c: "filter is_start (trace (snd (autoRenewal join auth c w))) = filter is_start (trace w)"
    if "fst (authenticate auth c w) = Inr sec"
      "fst (writeToken join c sec w) \<noteq> Returns None \<or> new_watcher c \<noteq> None" for sec
    using that autoRenewal_starts [of join auth c w]
    by (auto simp add: authenticate_eq)
  show ?thesis
    using a order_at_end_not_wrong [OF a] b c by blast
qed

theorem login_write_watch_order_witness:
  "order (trace (world_of (StartAutoRenew unix_join va0
       [ok_cycle ''A'' [SelRenew, SelDone (Some ''lease expired'')],
        (ok_cycle ''B'' [])\<lparr>write_file := Some ''disk full''\<rparr>,
        ok_cycle ''C'' [SelCtxDone]] w0))) = Stopped
   \<and> filter is_start (trace (snd (autoRenewal unix_join va0
        ((ok_cycle ''B'' [])\<lparr>write_file := Some ''disk full''\<rparr>) w0))) = []"
  using login_write_watch_order [where w = w0 and join = unix_join and auth = va0
      and c = "(ok_cycle ''B'' [])\<lparr>write_file := Some ''disk full''\<rparr>"
      and cs = "[ok_cycle ''A'' [SelRenew, SelDone (Some ''lease expired'')],
                (ok_cycle ''B'' [])\<lparr>write_file := Some ''disk full''\<rparr>,
                ok_cycle ''C'' [SelCtxDone]]"]
  by (simp add: order_def order_step_def w0_def autoRenewal_def authenticate_def writeToken_def
      ok_cycle_def Let_def fire_def emit_def)

section \<open>The lease watcher is stopped\<close>

lemma watch_foldl_quiet:
  assumes "\<And>s e m. f s (EvLogError e m) = s" "\<And>s m. f s (EvLogInfo m) = s"
    "\<And>s p. f s (EvCancel p) = s"
  shows "foldl f s0 (trace (snd (watch ss w))) = foldl f s0 (trace w)"
  using assms by (induction ss w rule: watch.induct) (simp_all add: trace_fire)

lemma watcher_step_quiet [simp]:
  "watcher_step st (EvLogError e m) = st" "watcher_step st (EvLogInfo m) = st"
  "watcher_step st (EvCancel p) = st" "watcher_step st (EvReadFile f) = st"
  "watcher_step st (EvRawRequest a me pa j r) = st" "watcher_step st EvBodyClose = st"
  "watcher_step st (EvWriteFile q d mo res) = st" "watcher_step st (EvTimeAfter t) = st"
  by (simp_all add: watcher_step_def split: option.splits)

lemma watcher_step_start [simp]: "watcher_step (Some 0) (EvWatcherStart s) = Some 1"
  by (simp add: watcher_step_def)

lemma watcher_step_stop [simp]: "watcher_step (Some (Suc 0)) EvWatcherStop = Some 0"
  by (simp add: watcher_step_def)

lemma watchers_auth [simp]: "foldl watcher_step st (auth_events auth c) = st"
  using auth_events_shape [of auth c] by auto

lemma watchers_watch [simp]:
  "foldl watcher_step st (trace (snd (watch ss w))) = foldl watcher_step st (trace w)"
  by (rule watch_foldl_quiet) simp_all

lemma watchers_cycle:
  assumes "watchers (trace w) = Some 0"
  shows "watchers (trace (snd (autoRenewal join auth c w))) =
           Some (if fst (autoRenewal join auth c w) = Blocks then 1 else 0)"
  using assms
  by (simp add: watchers_def cycle_simps trace_fire split: sum.splits option.splits go.splits)

lemma watchers_fire [simp]: "watchers (trace (fire p b w)) = watchers (trace w)"
  by (simp add: watchers_def trace_fire)

lemma watchers_pause [simp]: "watchers (evs @ [EvTimeAfter d]) = watchers evs"
  by (simp add: watchers_def)

lemma watchers_loop:
  "watchers (trace w) = Some 0 \<Longrightarrow>
   watchers (trace (world_of (StartAutoRenew join auth cs w))) =
     Some (waiting (StartAutoRenew join auth cs w))"
proof (induction cs arbitrary: w)
  case Nil
  then show ?case by simp
next
  case (Cons c cs)
  obtain r w1 where rw: "autoRenewal join auth c w = (r, w1)"
    by (cases "autoRenewal join auth c w")
  have st: "watchers (trace w1) = Some (if r = Blocks then 1 else 0)"
    using watchers_cycle [OF Cons.prems, of join auth c] rw by simp
  from rw show ?case
  proof (cases rule: StartAutoRenew_cases [where cs = cs])
    case crash
    then show ?thesis using st by (simp del: StartAutoRenew.simps)
  next
    case hang
    then show ?thesis using st by (simp del: StartAutoRenew.simps)
  next
    case (exit err)
    then show ?thesis using st by (simp del: StartAutoRenew.simps)
  next
    case again
    then show ?thesis using st Cons.IH by (simp del: StartAutoRenew.simps)
  next
    case (exit_backoff e)
    then show ?thesis using st by (simp del: StartAutoRenew.simps)
  next
    case (pause e)
    then show ?thesis using st Cons.IH by (simp del: StartAutoRenew.simps)
  qed
qed

text \<open>
  C7. With no watcher running at the start, none is running whenever a cycle is over:
  every watcher that \<open>autoRenewal\<close> started is stopped when it returns, whichever way the
  wait ended; a watcher is still running only while \<open>autoRenewal\<close> is blocked in the wait
  itself. The same holds for the whole loop, and at no point of its trace are two
  watchers running.
\<close>

theorem watcher_always_stopped:
  assumes "watchers (trace w) = Some 0"
  shows "watchers (trace (snd (autoRenewal join auth c w))) =
           Some (if fst (autoRenewal join auth c w) = Blocks then 1 else 0)
       \<and> watchers (trace (world_of (StartAutoRenew join auth cs w))) =
           Some (waiting (StartAutoRenew join auth cs w))"
  using watchers_cycle [OF assms] watchers_loop [OF assms] by simp

theorem watcher_always_stopped_witness:
  "watchers (trace (world_of (StartAutoRenew unix_join va0
       [ok_cycle ''A'' [SelRenew, SelDone (Some ''lease expired'')],
        (ok_cycle ''B'' [SelCtxDone])] w0))) = Some 0
   \<and> watchers (trace (world_of (StartAutoRenew unix_join va0
       [ok_cycle ''A'' [SelRenew]] w0))) = Some 1"
  using watcher_always_stopped [where w = w0 and join = unix_join and auth = va0
      and cs = "[ok_cycle ''A'' [SelRenew, SelDone (Some ''lease expired'')],
                (ok_cycle ''B'' [SelCtxDone])]"]
    watcher_always_stopped [where w = w0 and join = unix_join and auth = va0
      and cs = "[ok_cycle ''A'' [SelRenew]]"]
  by (simp add: watchers_def w0_def autoRenewal_def authenticate_def writeToken_def
      ok_cycle_def Let_def fire_def emit_def)

section \<open>Token persistence\<close>

text \<open>
  C8. For a secret that carries a credential, \<open>writeToken\<close> issues one write of exactly
  the client token to the file \<open>.vault-token\<close> joined to the home directory, with mode
  0600 (read and write for the owner, nothing for group and others); it returns an error
  exactly when the home directory is not resolved or the write fails; and it does nothing
  else: without a home directory the world is unchanged, with one the single write event
  is all that is added.
\<close>

theorem writeToken_persists:
  assumes "Auth s = Some a"
  shows "(case home_dir c of
            Inl err \<Rightarrow> writeToken join c (Some s) w = (Returns (Some err), w)
          | Inr h \<Rightarrow> writeToken join c (Some s) w =
              (Returns (write_file c),
               w\<lparr>trace := trace w @
                   [EvWriteFile (join h ''.vault-token'') (ClientToken a) perm_0600 (write_file c)]\<rparr>))
       \<and> ((\<exists>err. fst (writeToken join c (Some s) w) = Returns (Some err))
            \<longleftrightarrow> (\<exists>err. home_dir c = Inl err) \<or> (\<exists>err. write_file c = Some err))
       \<and> fst (writeToken join c (Some s) w) \<noteq> Panics
       \<and> fst (writeToken join c (Some s) w) \<noteq> Blocks
       \<and> cancelled (snd (writeToken join c (Some s) w)) = cancelled w
       \<and> perm_0600 = 384 \<and> perm_0600 AND 384 = 384 \<and> perm_0600 AND 127 = 0"
  using assms
  by (cases "home_dir c"; cases "write_file c")
     (simp_all add: writeToken_def emit_def perm_0600_def)

theorem writeToken_persists_witness:
  "writeToken (\<lambda>a b. a @ ''/'' @ b) (ok_cycle ''s.abc'' [])
     (Some \<lparr>Auth = Some \<lparr>ClientToken = ''s.abc''\<rparr>\<rparr>) \<lparr>cancelled = False, trace = []\<rparr>
   = (Returns None,
      \<lparr>cancelled = False, trace = [EvWriteFile ''/root/.vault-token'' ''s.abc'' 384 None]\<rparr>)"
  using writeToken_persists [where s = "\<lparr>Auth = Some \<lparr>ClientToken = ''s.abc''\<rparr>\<rparr>"
      and a = "\<lparr>ClientToken = ''s.abc''\<rparr>" and c = "ok_cycle ''s.abc'' []"
      and join = "\<lambda>a b. a @ ''/'' @ b" and w = "\<lparr>cancelled = False, trace = []\<rparr>"]
  by (simp add: ok_cycle_def)

section \<open>A secret without credential\<close>

text \<open>
  C9, as stated, does not hold for every call with a nil \<open>Auth\<close>: the home directory is
  resolved before the token is read, and when that fails \<open>writeToken\<close> returns the error
  and does not crash.
\<close>

theorem writeToken_nil_auth_counterexample:
  "writeToken unix_join ((ok_cycle ''tok'' [])\<lparr>home_dir := Inl ''$HOME is not defined''\<rparr>)
     (Some \<lparr>Auth = None\<rparr>) w0 = (Returns (Some ''$HOME is not defined''), w0)"
  by (simp add: writeToken_def ok_cycle_def)

text \<open>
  C9 amended. For a secret whose \<open>Auth\<close> is nil, \<open>writeToken\<close> crashes whenever the home
  directory is resolved, before any write and without returning an error, and it returns
  the error of the home directory otherwise; a login that returns such a secret then
  crashes the loop. \<open>writeToken\<close> is free of crashes in every environment exactly for the
  secrets that carry an \<open>Auth\<close>.
\<close>

theorem writeToken_nil_auth:
  assumes "Auth s = None"
  shows "writeToken join c (Some s) w =
           (case home_dir c of Inl err \<Rightarrow> (Returns (Some err), w) | Inr h \<Rightarrow> (Panics, w))
       \<and> (\<forall>h. home_dir c = Inr h \<longrightarrow> fst (authenticate auth c w) = Inr (Some s) \<longrightarrow>
             (\<exists>w'. StartAutoRenew join auth (c # cs) w = Crashed w'
                   \<and> filter is_write (trace w') = filter is_write (trace w)))
       \<and> ((\<forall>c' w'. fst (writeToken join c' secret w') \<noteq> Panics)
            \<longleftrightarrow> (\<exists>s' a. secret = Some s' \<and> Auth s' = Some a))"
proof -
  have a: "writeToken join c (Some s) w =
           (case home_dir c of Inl err \<Rightarrow> (Returns (Some err), w) | Inr h \<Rightarrow> (Panics, w))"
    using assms by (simp add: writeToken_def split: sum.splits)
  have b: "\<exists>w'. StartAutoRenew join auth (c # cs) w = Crashed w'
                \<and> filter is_write (trace w') = filter is_write (trace w)"
    if "home_dir c = Inr h" "fst (authenticate auth c w) = Inr (Some s)" for h
    using that assms
    by (simp add: cycle_simps trace_fire)
  have c1: "\<exists>s' a. secret = Some s' \<and> Auth s' = Some a"
    if "\<forall>c' w'. fst (writeToken join c' secret w') \<noteq> Panics"
  proof -
    have "fst (writeToken join (ok_cycle [] []) secret w0) \<noteq> Panics"
      using that by blast
    then show ?thesis
      by (cases secret; cases "Auth (the secret)")
         (auto simp add: writeToken_def ok_cycle_def)
  qed
  have c2: "fst (writeToken join c' secret w') \<noteq> Panics"
    if "\<exists>s' a. secret = Some s' \<and> Auth s' = Some a" for c' w'
    using that by (auto simp add: writeToken_def Let_def split: sum.splits option.splits)
  show ?thesis
    using a b c1 c2 by blast
qed

theorem writeToken_nil_auth_witness:
  "writeToken unix_join (ok_cycle ''tok'' []) (Some \<lparr>Auth = None\<rparr>) w0 = (Panics, w0)"
  using writeToken_nil_auth [where s = "\<lparr>Auth = None\<rparr>" and join = unix_join
      and c = "ok_cycle ''tok'' []" and w = w0]
  by (simp add: ok_cycle_def)

end
